theory Spec2Isabelle
  imports Complex_Main
begin

section \<open>Clustering as max-cut: the distance matrix and the Ising model\<close>

text \<open>
  The notebook \<^verbatim>\<open>10_Discrete_Optimization_and_Unsupervised_Learning-qiskit.ipynb\<close>
  computes two things itself: the matrix of pairwise Euclidean distances of the data
  points, and the couplings \<open>J\<close> and on-site fields \<open>h\<close> of an Ising model handed to an
  annealer. Both are embedded here as the cells write them. numpy's floats are
  idealised as \<^typ>\<open>real\<close>; an out-of-range index raises, as in numpy.
\<close>

subsection \<open>Arrays\<close>

datatype error = IndexError

type_synonym vector = "real list"
type_synonym matrix = "real list list"

text \<open>\<^verbatim>\<open>np.zeros((r, c))\<close>\<close>

definition zeros :: "nat \<Rightarrow> nat \<Rightarrow> matrix" where
  "zeros r c = replicate r (replicate c 0)"

text \<open>\<^verbatim>\<open>data[i]\<close>: a row of a two-dimensional array.\<close>

definition row :: "matrix \<Rightarrow> nat \<Rightarrow> error + vector" where
  "row a i = (if i < length a then Inr (a ! i) else Inl IndexError)"

text \<open>\<^verbatim>\<open>w[i, j]\<close> read and \<^verbatim>\<open>w[i, j] = v\<close>.\<close>

definition get2 :: "matrix \<Rightarrow> nat \<Rightarrow> nat \<Rightarrow> error + real" where
  "get2 a i j =
     (if i < length a \<and> j < length (a ! i) then Inr (a ! i ! j) else Inl IndexError)"

definition set2 :: "matrix \<Rightarrow> nat \<Rightarrow> nat \<Rightarrow> real \<Rightarrow> error + matrix" where
  "set2 a i j v =
     (if i < length a \<and> j < length (a ! i) then Inr (a[i := (a ! i)[j := v]])
      else Inl IndexError)"

text \<open>
  \<^verbatim>\<open>data[i] - data[j]\<close> on two rows of one array (they have the same length), and
  \<^verbatim>\<open>np.linalg.norm\<close> of a vector: the square root of the sum of its squared entries.
\<close>

definition vsub :: "vector \<Rightarrow> vector \<Rightarrow> vector" where
  "vsub p q = map (\<lambda>(x, y). x - y) (zip p q)"

definition linalg_norm :: "vector \<Rightarrow> real" where
  "linalg_norm v = sqrt (\<Sum>x\<leftarrow>v. x * x)"

text \<open>An array of shape \<open>(r, c)\<close>.\<close>

definition shape :: "nat \<Rightarrow> nat \<Rightarrow> matrix \<Rightarrow> bool" where
  "shape r c a \<longleftrightarrow> length a = r \<and> list_all (\<lambda>p. length p = c) a"

subsection \<open>The distance matrix\<close>

text \<open>
  \<^verbatim>\<open>
  w = np.zeros((n_instances, n_instances))
  for i, j in itertools.product(*[range(n_instances)]*2):
      w[i, j] = np.linalg.norm(data[i]-data[j])
  \<close>
  The loop runs over the pairs in the order of \<^verbatim>\<open>itertools.product\<close> and stops at the
  first index that is out of range.
\<close>

fun distance_loop :: "matrix \<Rightarrow> (nat \<times> nat) list \<Rightarrow> matrix \<Rightarrow> error + matrix" where
  "distance_loop data [] w = Inr w"
| "distance_loop data ((i, j) # ps) w =
     (case row data i of Inl e \<Rightarrow> Inl e | Inr p \<Rightarrow>
      case row data j of Inl e \<Rightarrow> Inl e | Inr q \<Rightarrow>
      case set2 w i j (linalg_norm (vsub p q)) of Inl e \<Rightarrow> Inl e | Inr w' \<Rightarrow>
        distance_loop data ps w')"

definition distance_matrix :: "nat \<Rightarrow> matrix \<Rightarrow> error + matrix" where
  "distance_matrix n_instances data =
     distance_loop data (List.product [0..<n_instances] [0..<n_instances])
       (zeros n_instances n_instances)"

text \<open>
  The Euclidean distance of two points of \<open>\<real>\<^sup>d\<close>, coordinate by coordinate: what the
  entries of the matrix are meant to be.
\<close>

definition euclidean_distance :: "nat \<Rightarrow> vector \<Rightarrow> vector \<Rightarrow> real" where
  "euclidean_distance d p q = sqrt (\<Sum>k<d. (p ! k - q ! k)\<^sup>2)"

subsection \<open>The Ising model\<close>

text \<open>
  Python dictionaries keyed by node or by pair of nodes, in insertion order:
  \<^verbatim>\<open>d[k] = v\<close> replaces the value of a key that is present and appends a new key.
\<close>

type_synonym ('k, 'v) dict = "('k \<times> 'v) list"

fun dict_set :: "('k, 'v) dict \<Rightarrow> 'k \<Rightarrow> 'v \<Rightarrow> ('k, 'v) dict" where
  "dict_set [] k v = [(k, v)]"
| "dict_set ((k', v') # kvs) k v =
     (if k' = k then (k, v) # kvs else (k', v') # dict_set kvs k v)"

datatype vartype = SPIN | BINARY

text \<open>
  \<^verbatim>\<open>dimod.BinaryQuadraticModel(h, J, 0.0, dimod.SPIN)\<close>: the model keeps the linear
  biases, the quadratic couplings, the offset and the kind of variable it is given.
\<close>

record cost_model =
  linear :: "(nat, real) dict"
  quadratic :: "(nat \<times> nat, real) dict"
  offset :: real
  vartype :: vartype

text \<open>
  \<^verbatim>\<open>
  J, h = {}, {}
  for i in range(n_instances):
      h[i] = 0
      for j in range(i+1, n_instances):
          J[(i, j)] = w[i, j]
  model = dimod.BinaryQuadraticModel(h, J, 0.0, dimod.SPIN)
  \<close>
\<close>

fun inner_loop ::
  "matrix \<Rightarrow> nat \<Rightarrow> nat list \<Rightarrow> (nat \<times> nat, real) dict \<Rightarrow> error + (nat \<times> nat, real) dict"
where
  "inner_loop w i [] J = Inr J"
| "inner_loop w i (j # js) J =
     (case get2 w i j of Inl e \<Rightarrow> Inl e | Inr v \<Rightarrow> inner_loop w i js (dict_set J (i, j) v))"

fun outer_loop ::
  "matrix \<Rightarrow> nat \<Rightarrow> nat list \<Rightarrow> (nat \<times> nat, real) dict \<times> (nat, real) dict \<Rightarrow>
     error + (nat \<times> nat, real) dict \<times> (nat, real) dict"
where
  "outer_loop w n [] (J, h) = Inr (J, h)"
| "outer_loop w n (i # is) (J, h) =
     (let h' = dict_set h i 0 in
      case inner_loop w i [i + 1..<n] J of Inl e \<Rightarrow> Inl e | Inr J' \<Rightarrow>
        outer_loop w n is (J', h'))"

definition couplings ::
  "nat \<Rightarrow> matrix \<Rightarrow> error + (nat \<times> nat, real) dict \<times> (nat, real) dict" where
  "couplings n_instances w = outer_loop w n_instances [0..<n_instances] ([], [])"

definition ising_model :: "nat \<Rightarrow> matrix \<Rightarrow> error + cost_model" where
  "ising_model n_instances w =
     (case couplings n_instances w of Inl e \<Rightarrow> Inl e | Inr (J, h) \<Rightarrow>
        Inr \<lparr>linear = h, quadratic = J, offset = 0, vartype = SPIN\<rparr>)"

subsection \<open>Spin assignments, energy and cut weight\<close>

text \<open>
  A spin assignment gives each node \<open>0, \<dots>, N - 1\<close> the value \<open>-1\<close> or \<open>+1\<close>: a sample of
  the annealer.
\<close>

type_synonym spins = "int list"

definition spin_assignment :: "nat \<Rightarrow> spins \<Rightarrow> bool" where
  "spin_assignment n s \<longleftrightarrow> length s = n \<and> list_all (\<lambda>x. x = 1 \<or> x = - 1) s"

definition flip :: "spins \<Rightarrow> spins" where
  "flip s = map uminus s"

text \<open>
  Modelled from the spec: the evaluation of a cost model on a spin assignment, which the
  notebook leaves to the annealing library. It is the sum of each bias times its spin
  and of each coupling times its two spins (\<open>sum_{i<j} J[i,j] * s_i * s_j\<close>, with bias
  \<open>h\<close>); the offset is added separately.
\<close>

definition linear_energy :: "(nat, real) dict \<Rightarrow> spins \<Rightarrow> real" where
  "linear_energy h s = (\<Sum>(i, b)\<leftarrow>h. b * real_of_int (s ! i))"

definition quadratic_energy :: "(nat \<times> nat, real) dict \<Rightarrow> spins \<Rightarrow> real" where
  "quadratic_energy J s = (\<Sum>((i, j), c)\<leftarrow>J. c * real_of_int (s ! i) * real_of_int (s ! j))"

definition evaluate :: "cost_model \<Rightarrow> spins \<Rightarrow> real" where
  "evaluate m s = linear_energy (linear m) s + quadratic_energy (quadratic m) s"

text \<open>The sum of \<open>f i j\<close> over the pairs \<open>i < j < n\<close>.\<close>

definition sum_pairs :: "nat \<Rightarrow> (nat \<Rightarrow> nat \<Rightarrow> real) \<Rightarrow> real" where
  "sum_pairs n f = (\<Sum>i\<leftarrow>[0..<n]. \<Sum>j\<leftarrow>[Suc i..<n]. f i j)"

definition total_weight :: "matrix \<Rightarrow> nat \<Rightarrow> real" where
  "total_weight w n = sum_pairs n (\<lambda>i j. w ! i ! j)"

text \<open>The cut weight as the Ising algebra writes it: \<open>sum_{i<j} w[i][j] * (1 - s_i*s_j) / 2\<close>.\<close>

definition cut_weight :: "matrix \<Rightarrow> nat \<Rightarrow> spins \<Rightarrow> real" where
  "cut_weight w n s = sum_pairs n (\<lambda>i j. w ! i ! j * (1 - real_of_int (s ! i * s ! j)) / 2)"

text \<open>
  Modelled from the spec: the cut-value evaluator, a function of the optimisation
  library (\<^verbatim>\<open>max_cut.max_cut_value\<close>) that the notebook only calls. Given a spin
  assignment it returns \<open>sum_{i<j} W[i][j]\<close> restricted to the pairs where \<open>s_i \<noteq> s_j\<close>.
\<close>

definition cut_value :: "matrix \<Rightarrow> nat \<Rightarrow> spins \<Rightarrow> real" where
  "cut_value w n s = sum_pairs n (\<lambda>i j. if s ! i \<noteq> s ! j then w ! i ! j else 0)"

subsection \<open>Auxiliary notions\<close>

text \<open>The couplings that the inner loop adds for node \<open>i\<close>, in the order it adds them.\<close>

definition row_couplings :: "matrix \<Rightarrow> nat \<Rightarrow> nat \<Rightarrow> (nat \<times> nat, real) dict" where
  "row_couplings w n i = map (\<lambda>j. ((i, j), w ! i ! j)) [Suc i..<n]"

section \<open>Properties\<close>

subsection \<open>The loop of the distance matrix\<close>

lemma shape_nth: "shape r c a \<Longrightarrow> i < r \<Longrightarrow> length (a ! i) = c"
  by (simp add: shape_def list_all_length)

lemma shape_zeros: "shape r c (zeros r c)"
  by (simp add: shape_def zeros_def list_all_length)

lemma zeros_nth: "i < r \<Longrightarrow> j < c \<Longrightarrow> zeros r c ! i ! j = 0"
  by (simp add: zeros_def)

lemma set2_shape:
  assumes "shape r c a" "i < r" "j < c"
  shows "set2 a i j v = Inr (a[i := (a ! i)[j := v]])"
    and "shape r c (a[i := (a ! i)[j := v]])"
  using assms by (auto simp: set2_def shape_def list_all_length nth_list_update)

lemma set2_nth:
  assumes "shape r c a" "i < r" "j < c" "i' < r" "j' < c"
  shows "a[i := (a ! i)[j := v]] ! i' ! j' = (if i' = i \<and> j' = j then v else a ! i' ! j')"
  using assms by (auto simp: shape_def list_all_length nth_list_update)

lemma distance_loop_cells:
  assumes "shape n n w"
    and "\<forall>(i, j)\<in>set ps. i < n \<and> j < n \<and> i < length data \<and> j < length data"
  shows "\<exists>w'. distance_loop data ps w = Inr w' \<and> shape n n w' \<and>
           (\<forall>i<n. \<forall>j<n. w' ! i ! j =
              (if (i, j) \<in> set ps then linalg_norm (vsub (data ! i) (data ! j)) else w ! i ! j))"
  using assms
proof (induction ps arbitrary: w)
  case Nil
  then show ?case by simp
next
  case (Cons a ps)
  obtain i j where a: "a = (i, j)" by (cases a)
  from Cons.prems(2) a have ij: "i < n" "j < n" "i < length data" "j < length data"
    by auto
  let ?v = "linalg_norm (vsub (data ! i) (data ! j))"
  let ?w = "w[i := (w ! i)[j := ?v]]"
  have s: "set2 w i j ?v = Inr ?w" and sh: "shape n n ?w"
    using set2_shape [OF Cons.prems(1) ij(1,2)] by auto
  from Cons.prems(2) have rest: "\<forall>(i, j)\<in>set ps. i < n \<and> j < n \<and> i < length data \<and> j < length data"
    by auto
  from Cons.IH [OF sh rest] obtain w' where
    w': "distance_loop data ps ?w = Inr w'" "shape n n w'"
      "\<forall>i'<n. \<forall>j'<n. w' ! i' ! j' =
              (if (i', j') \<in> set ps then linalg_norm (vsub (data ! i') (data ! j')) else ?w ! i' ! j')"
    by blast
  have run: "distance_loop data (a # ps) w = Inr w'"
    using ij s w'(1) by (simp add: a row_def)
  have cells: "w' ! i' ! j' =
      (if (i', j') \<in> set (a # ps) then linalg_norm (vsub (data ! i') (data ! j')) else w ! i' ! j')"
    if "i' < n" "j' < n" for i' j'
    using w'(3) that set2_nth [OF Cons.prems(1) ij(1,2) that, of ?v] by (auto simp: a)
  show ?case using run w'(2) cells by blast
qed

lemma distance_matrix_cells:
  assumes "n \<le> length data"
  shows "\<exists>w. distance_matrix n data = Inr w \<and> shape n n w \<and>
           (\<forall>i<n. \<forall>j<n. w ! i ! j = linalg_norm (vsub (data ! i) (data ! j)))"
proof -
  have "\<forall>(i, j)\<in>set (List.product [0..<n] [0..<n]). i < n \<and> j < n \<and> i < length data \<and> j < length data"
    using assms by auto
  from distance_loop_cells [OF shape_zeros this]
  show ?thesis unfolding distance_matrix_def by auto
qed

lemma norm_vsub_euclidean:
  assumes "length p = d" "length q = d"
  shows "linalg_norm (vsub p q) = euclidean_distance d p q"
proof -
  have "(\<Sum>x\<leftarrow>vsub p q. x * x) = (\<Sum>k = 0..<d. (vsub p q ! k) * (vsub p q ! k))"
    using assms by (simp add: sum_list_sum_nth vsub_def)
  also have "\<dots> = (\<Sum>k<d. (p ! k - q ! k)\<^sup>2)"
    using assms by (intro sum.cong) (auto simp: vsub_def power2_eq_square)
  finally show ?thesis by (simp add: linalg_norm_def euclidean_distance_def)
qed

lemma vsub_self: "linalg_norm (vsub p p) = 0"
  by (simp add: linalg_norm_def vsub_def zip_same_conv_map comp_def)

lemma vsub_sym: "linalg_norm (vsub p q) = linalg_norm (vsub q p)"
proof -
  have "map (\<lambda>x. x * x) (vsub p q) = map (\<lambda>x. x * x) (vsub q p)"
    unfolding vsub_def
    by (induction p q rule: list_induct2') (auto simp: algebra_simps)
  then show ?thesis by (simp add: linalg_norm_def)
qed

lemma norm_nonneg: "0 \<le> linalg_norm v"
  unfolding linalg_norm_def by (intro real_sqrt_ge_zero sum_list_nonneg) auto

subsection \<open>The loops of the Ising model\<close>

lemma dict_set_fresh: "k \<notin> fst ` set kvs \<Longrightarrow> dict_set kvs k v = kvs @ [(k, v)]"
  by (induction kvs) auto

lemma inner_loop_eq:
  assumes "i < length w" "\<forall>j\<in>set js. j < length (w ! i)" "distinct js"
    and "\<forall>j\<in>set js. (i, j) \<notin> fst ` set J"
  shows "inner_loop w i js J = Inr (J @ map (\<lambda>j. ((i, j), w ! i ! j)) js)"
  using assms
proof (induction js arbitrary: J)
  case Nil
  then show ?case by simp
next
  case (Cons j js)
  have fresh: "dict_set J (i, j) (w ! i ! j) = J @ [((i, j), w ! i ! j)]"
    using Cons.prems(4) by (intro dict_set_fresh) simp
  have "inner_loop w i js (J @ [((i, j), w ! i ! j)])
      = Inr ((J @ [((i, j), w ! i ! j)]) @ map (\<lambda>j. ((i, j), w ! i ! j)) js)"
    using Cons.prems by (intro Cons.IH) auto
  then show ?case
    using Cons.prems(1,2) fresh by (simp add: get2_def)
qed

lemma fst_row_couplings: "k \<in> fst ` set (row_couplings w n i) \<Longrightarrow> fst k = i"
  by (auto simp: row_couplings_def)

lemma outer_loop_eq:
  assumes "shape n n w" "distinct is" "\<forall>i\<in>set is. i < n"
    and "\<forall>k\<in>fst ` set J. fst k \<notin> set is"
    and "\<forall>i\<in>set is. i \<notin> fst ` set h"
  shows "outer_loop w n is (J, h)
       = Inr (J @ concat (map (row_couplings w n) is), h @ map (\<lambda>i. (i, 0)) is)"
  using assms
proof (induction "is" arbitrary: J h)
  case Nil
  then show ?case by simp
next
  case (Cons i "is")
  have i: "i < n" using Cons.prems(3) by simp
  have len: "length w = n" "length (w ! i) = n"
    using Cons.prems(1) i shape_nth [OF Cons.prems(1) i] by (auto simp: shape_def)
  have inner: "inner_loop w i [i + 1..<n] J = Inr (J @ row_couplings w n i)"
    unfolding row_couplings_def using Cons.prems(4) i len
    by (simp only: Suc_eq_plus1 [symmetric]) (intro inner_loop_eq, auto)
  have h': "dict_set h i 0 = h @ [(i, 0)]"
    using Cons.prems(5) by (intro dict_set_fresh) simp
  have keys: "\<forall>k\<in>fst ` set (J @ row_couplings w n i). fst k \<notin> set is"
  proof
    fix k assume "k \<in> fst ` set (J @ row_couplings w n i)"
    then consider "k \<in> fst ` set J" | "k \<in> fst ` set (row_couplings w n i)"
      by auto
    then show "fst k \<notin> set is"
    proof cases
      case 1
      then show ?thesis using Cons.prems(4) by auto
    next
      case 2
      then have "fst k = i" by (rule fst_row_couplings)
      then show ?thesis using Cons.prems(2) by simp
    qed
  qed
  have hkeys: "\<forall>i'\<in>set is. i' \<notin> fst ` set (h @ [(i, 0)])"
    using Cons.prems(2,5) by auto
  have "outer_loop w n is (J @ row_couplings w n i, h @ [(i, 0)])
      = Inr ((J @ row_couplings w n i) @ concat (map (row_couplings w n) is),
             (h @ [(i, 0)]) @ map (\<lambda>i. (i, 0)) is)"
    using Cons.prems(1,2,3) keys hkeys by (intro Cons.IH) auto
  then show ?case using inner h' by simp
qed

lemma couplings_eq:
  assumes "shape n n w"
  shows "couplings n w
       = Inr (concat (map (row_couplings w n) [0..<n]), map (\<lambda>i. (i, 0)) [0..<n])"
  unfolding couplings_def using outer_loop_eq [OF assms, of "[0..<n]" "[]" "[]"] by simp

lemma ising_model_eq:
  assumes "shape n n w"
  shows "ising_model n w
       = Inr \<lparr>linear = map (\<lambda>i. (i, 0)) [0..<n],
              quadratic = concat (map (row_couplings w n) [0..<n]),
              offset = 0, vartype = SPIN\<rparr>"
  by (simp add: ising_model_def couplings_eq [OF assms])

lemma linear_energy_zero: "linear_energy (map (\<lambda>i. (i, 0)) xs) s = 0"
  by (induction xs) (auto simp: linear_energy_def)

lemma quadratic_energy_rows:
  "quadratic_energy (concat (map (row_couplings w n) xs)) s
     = (\<Sum>i\<leftarrow>xs. \<Sum>j\<leftarrow>[Suc i..<n]. w ! i ! j * real_of_int (s ! i) * real_of_int (s ! j))"
  by (induction xs) (auto simp: quadratic_energy_def row_couplings_def comp_def)

lemma evaluate_ising:
  assumes "shape n n w" "ising_model n w = Inr m"
  shows "evaluate m s = sum_pairs n (\<lambda>i j. w ! i ! j * real_of_int (s ! i) * real_of_int (s ! j))"
    and "offset m = 0"
  using assms(2) unfolding ising_model_eq [OF assms(1)]
  by (auto simp: evaluate_def linear_energy_zero quadratic_energy_rows sum_pairs_def)

lemma map_of_row_couplings:
  "map_of (map (\<lambda>j. ((a, j), w ! a ! j)) js) (i, j)
     = (if i = a \<and> j \<in> set js then Some (w ! a ! j) else None)"
  by (induction js) auto

lemma map_of_rows:
  "map_of (concat (map (row_couplings w n) xs)) (i, j)
     = (if i \<in> set xs \<and> i < j \<and> j < n then Some (w ! i ! j) else None)"
proof (induction xs)
  case Nil
  then show ?case by simp
next
  case (Cons a xs)
  have "map_of (row_couplings w n a) (i, j)
      = (if i = a \<and> a < j \<and> j < n then Some (w ! a ! j) else None)"
    unfolding row_couplings_def map_of_row_couplings by auto
  with Cons.IH show ?case
    by (auto simp: map_add_def split: option.splits)
qed

lemma map_of_couplings:
  "map_of (concat (map (row_couplings w n) [0..<n])) (i, j)
     = (if i < j \<and> j < n then Some (w ! i ! j) else None)"
  unfolding map_of_rows by auto

subsection \<open>Sums over pairs of nodes\<close>

lemma sum_pairs_cong:
  assumes "\<And>i j. i < j \<Longrightarrow> j < n \<Longrightarrow> f i j = g i j"
  shows "sum_pairs n f = sum_pairs n g"
proof -
  have "(\<Sum>j\<leftarrow>[Suc i..<n]. f i j) = (\<Sum>j\<leftarrow>[Suc i..<n]. g i j)" for i
    by (rule arg_cong [where f = sum_list], rule map_cong) (auto intro: assms)
  then show ?thesis by (simp add: sum_pairs_def)
qed

lemma sum_pairs_diff: "sum_pairs n (\<lambda>i j. f i j - g i j) = sum_pairs n f - sum_pairs n g"
  by (simp add: sum_pairs_def sum_list_subtractf)

lemma sum_pairs_cmult: "sum_pairs n (\<lambda>i j. c * f i j) = c * sum_pairs n f"
  by (simp add: sum_pairs_def sum_list_const_mult)

lemma spin_nth: "spin_assignment n s \<Longrightarrow> i < n \<Longrightarrow> s ! i = 1 \<or> s ! i = - 1"
  by (simp add: spin_assignment_def list_all_length)

lemma energy_total_cut_weight:
  "sum_pairs n (\<lambda>i j. w ! i ! j * real_of_int (s ! i) * real_of_int (s ! j))
     = total_weight w n - 2 * cut_weight w n s"
  unfolding total_weight_def cut_weight_def sum_pairs_cmult [symmetric] sum_pairs_diff [symmetric]
  by (rule sum_pairs_cong) (simp add: field_simps)

lemma cut_value_weight:
  assumes "spin_assignment n s"
  shows "cut_value w n s = cut_weight w n s"
  unfolding cut_value_def cut_weight_def
proof (rule sum_pairs_cong)
  fix i j assume "i < j" "j < n"
  then have "s ! i = 1 \<or> s ! i = - 1" "s ! j = 1 \<or> s ! j = - 1"
    using spin_nth [OF assms] by auto
  then show "(if s ! i \<noteq> s ! j then w ! i ! j else 0)
      = w ! i ! j * (1 - real_of_int (s ! i * s ! j)) / 2"
    by auto
qed

subsection \<open>Claims of the specification\<close>

text \<open>
  C2: for a point set of \<open>N\<close> points in \<open>\<real>\<^sup>d\<close> (an array of shape \<open>(N, d)\<close>) and indices
  \<open>i, j < N\<close>, the distance matrix is built without error, has shape \<open>(N, N)\<close>, and its
  entry \<open>W[i][j]\<close> is the Euclidean distance between point \<open>i\<close> and point \<open>j\<close>.
\<close>

theorem distance_matrix_euclidean:
  assumes "shape n d data" and "i < n" and "j < n"
  shows "\<exists>w. distance_matrix n data = Inr w \<and> shape n n w \<and>
           w ! i ! j = euclidean_distance d (data ! i) (data ! j)"
proof -
  have "n \<le> length data" using assms(1) by (simp add: shape_def)
  from distance_matrix_cells [OF this] obtain w where
    w: "distance_matrix n data = Inr w" "shape n n w"
       "\<forall>i<n. \<forall>j<n. w ! i ! j = linalg_norm (vsub (data ! i) (data ! j))"
    by blast
  have "linalg_norm (vsub (data ! i) (data ! j)) = euclidean_distance d (data ! i) (data ! j)"
    using assms by (intro norm_vsub_euclidean shape_nth)
  with w assms(2,3) show ?thesis by auto
qed

theorem distance_matrix_euclidean_witness:
  "shape 2 2 [[0, 0], [3, 4]] \<and>
   (\<exists>w. distance_matrix 2 [[0, 0], [3, 4]] = Inr w \<and> shape 2 2 w \<and>
      w ! 0 ! 1 = euclidean_distance 2 ([[0, 0], [3, 4]] ! 0) ([[0, 0], [3, 4]] ! 1))"
proof -
  have a: "shape 2 2 [[0, 0], [3, 4]]" by (simp add: shape_def)
  have b: "(0::nat) < 2" "(1::nat) < 2" by simp_all
  show ?thesis using a distance_matrix_euclidean [OF a b] by blast
qed

text \<open>
  C3: for every point set the distance matrix is symmetric, has a zero diagonal, and
  has no negative entry.
\<close>

theorem distance_matrix_symmetric_zero_diagonal:
  assumes "shape n d data"
  shows "\<exists>w. distance_matrix n data = Inr w \<and> shape n n w \<and>
           (\<forall>i<n. \<forall>j<n. w ! i ! j = w ! j ! i) \<and>
           (\<forall>i<n. w ! i ! i = 0) \<and>
           (\<forall>i<n. \<forall>j<n. 0 \<le> w ! i ! j)"
proof -
  have "n \<le> length data" using assms(1) by (simp add: shape_def)
  from distance_matrix_cells [OF this] obtain w where
    w: "distance_matrix n data = Inr w" "shape n n w"
    and cells: "\<And>i j. i < n \<Longrightarrow> j < n \<Longrightarrow> w ! i ! j = linalg_norm (vsub (data ! i) (data ! j))"
    by blast
  have "w ! i ! j = w ! j ! i" if "i < n" "j < n" for i j
    using cells [OF that] cells [OF that(2,1)] vsub_sym [of "data ! i" "data ! j"] by simp
  moreover have "w ! i ! i = 0" if "i < n" for i
    using cells [OF that that] by (simp add: vsub_self)
  moreover have "0 \<le> w ! i ! j" if "i < n" "j < n" for i j
    using cells [OF that] by (simp add: norm_nonneg)
  ultimately show ?thesis using w by blast
qed

theorem distance_matrix_symmetric_zero_diagonal_witness:
  "shape 2 2 [[0, 0], [3, 4]] \<and>
   (\<exists>w. distance_matrix 2 [[0, 0], [3, 4]] = Inr w \<and>
      w ! 0 ! 1 = w ! 1 ! 0 \<and> w ! 0 ! 0 = 0 \<and> w ! 1 ! 1 = 0 \<and> 0 \<le> w ! 0 ! 1)"
proof -
  have a: "shape 2 2 [[0, 0], [3, 4]]" by (simp add: shape_def)
  have b: "(0::nat) < 2" "(1::nat) < 2" by simp_all
  from distance_matrix_symmetric_zero_diagonal [OF a] obtain w where
    "distance_matrix 2 [[0, 0], [3, 4]] = Inr w"
    "\<forall>i<2. \<forall>j<2. w ! i ! j = w ! j ! i" "\<forall>i<2. w ! i ! i = 0" "\<forall>i<2. \<forall>j<2. 0 \<le> w ! i ! j"
    by blast
  with a b show ?thesis by blast
qed

text \<open>
  C6: the distance matrix is built without error for no point and for one point: the
  empty point set gives the empty matrix, a single point gives \<open>[[0]]\<close>.
\<close>

theorem distance_matrix_empty_and_single:
  "distance_matrix 0 [] = Inr [] \<and> distance_matrix 1 [p] = Inr [[0]]"
  by (simp add: distance_matrix_def zeros_def row_def set2_def linalg_norm_def vsub_def
      zip_same_conv_map comp_def)

theorem distance_matrix_empty_and_single_witness:
  "distance_matrix 0 [] = Inr [] \<and> distance_matrix 1 [[2, 3]] = Inr [[0]]"
  by (rule distance_matrix_empty_and_single)

text \<open>
  A matrix that is not symmetric and whose diagonal is not zero is turned into a model
  like any other: the loops never look at the lower triangle or at the diagonal, and
  nothing in the cell checks its input.
\<close>

theorem asymmetric_matrix_accepted:
  "[[3, 1], [2, 0::real]] ! 0 ! 1 \<noteq> [[3, 1], [2, 0::real]] ! 1 ! 0 \<and>
   [[3, 1], [2, 0::real]] ! 0 ! 0 \<noteq> 0 \<and>
   ising_model 2 [[3, 1], [2, 0]]
     = Inr \<lparr>linear = [(0, 0), (1, 0)], quadratic = [((0, 1), 1)], offset = 0, vartype = SPIN\<rparr>"
  by code_simp

text \<open>
  C4 (amended): for every \<open>N \<times> N\<close> matrix, symmetric or not and whatever its diagonal,
  the model is built without error. Its couplings are exactly the entries above the
  diagonal, row by row: \<open>J\<close> has the key \<open>(i, j)\<close> if and only if \<open>i < j < N\<close>, and then
  \<open>J[(i, j)] = W[i][j]\<close>; every node has the bias \<open>0\<close>, the offset is \<open>0\<close> and the
  variables are spins.
\<close>

theorem ising_model_never_rejects:
  assumes "shape n n w"
  shows "\<exists>m. ising_model n w = Inr m \<and>
           quadratic m
             = concat (map (\<lambda>i. map (\<lambda>j. ((i, j), w ! i ! j)) [Suc i..<n]) [0..<n]) \<and>
           (\<forall>i j. map_of (quadratic m) (i, j)
                    = (if i < j \<and> j < n then Some (w ! i ! j) else None)) \<and>
           linear m = map (\<lambda>i. (i, 0)) [0..<n] \<and> offset m = 0 \<and> vartype m = SPIN"
proof -
  let ?J = "concat (map (row_couplings w n) [0..<n])"
  have "?J = concat (map (\<lambda>i. map (\<lambda>j. ((i, j), w ! i ! j)) [Suc i..<n]) [0..<n])"
    by (simp add: row_couplings_def [abs_def])
  moreover have "map_of ?J (i, j) = (if i < j \<and> j < n then Some (w ! i ! j) else None)"
    for i j
    by (simp add: map_of_couplings)
  ultimately show ?thesis using ising_model_eq [OF assms] by simp
qed

theorem ising_model_never_rejects_witness:
  "shape 2 2 [[3, 1], [2, 0]] \<and>
   (\<exists>m. ising_model 2 [[3, 1], [2, 0]] = Inr m \<and>
      map_of (quadratic m) (0, 1) = Some 1 \<and>
      map_of (quadratic m) (0, 0) = None \<and>
      map_of (quadratic m) (1, 0) = None \<and>
      map_of (quadratic m) (1, 1) = None \<and>
      linear m = [(0, 0), (1, 0)] \<and> offset m = 0 \<and> vartype m = SPIN)"
proof -
  have a: "shape 2 2 [[3, 1], [2, 0]]" by (simp add: shape_def)
  have u: "map (\<lambda>i. (i, 0::real)) [0..<2] = [(0, 0), (1, 0)]" by code_simp
  from ising_model_never_rejects [OF a] obtain m where
    m: "ising_model 2 [[3, 1], [2, 0]] = Inr m"
    and look: "\<And>i j. map_of (quadratic m) (i, j)
        = (if i < j \<and> j < 2 then Some ([[3, 1], [2, 0]] ! i ! j) else None)"
    and rest: "linear m = map (\<lambda>i. (i, 0)) [0..<2]" "offset m = 0" "vartype m = SPIN"
    by blast
  have "map_of (quadratic m) (0, 1) = Some 1" "map_of (quadratic m) (0, 0) = None"
    "map_of (quadratic m) (1, 0) = None" "map_of (quadratic m) (1, 1) = None"
    by (simp_all add: look)
  with a m rest u show ?thesis by simp
qed

text \<open>A single node gives a model with one zero bias and no coupling, not an error.\<close>

theorem single_node_accepted:
  "ising_model 1 [[0]]
     = Inr \<lparr>linear = [(0, 0)], quadratic = [], offset = 0, vartype = SPIN\<rparr>"
  by code_simp

text \<open>
  C5 (amended): for a weight matrix with \<open>N < 2\<close> nodes the model is built without error:
  it has no coupling, a zero bias for each of the \<open>N\<close> nodes, and offset \<open>0\<close>.
\<close>

theorem ising_model_fewer_than_two_nodes:
  assumes "n < 2" and "shape n n w"
  shows "ising_model n w
       = Inr \<lparr>linear = map (\<lambda>i. (i, 0)) [0..<n], quadratic = [], offset = 0, vartype = SPIN\<rparr>"
proof -
  have "n = 0 \<or> n = 1" using assms(1) by auto
  then have "concat (map (row_couplings w n) [0..<n]) = []"
    by (auto simp: row_couplings_def)
  then show ?thesis using ising_model_eq [OF assms(2)] by simp
qed

theorem ising_model_fewer_than_two_nodes_witness:
  "(1::nat) < 2 \<and> shape 1 1 [[0]] \<and>
   ising_model 1 [[0]]
     = Inr \<lparr>linear = [(0, 0)], quadratic = [], offset = 0, vartype = SPIN\<rparr>"
proof -
  have a: "(1::nat) < 2" by simp
  have b: "shape 1 1 [[0]]" by (simp add: shape_def)
  show ?thesis using a b ising_model_fewer_than_two_nodes [OF a b] by simp
qed

text \<open>
  C9: two \<open>N \<times> N\<close> matrices that agree above the diagonal give the same model (the same
  couplings, biases and offset), whatever their diagonals and lower triangles; every
  bias \<open>h[i]\<close> is \<open>0\<close> and the offset is \<open>0\<close>.
\<close>

theorem couplings_upper_triangle_only:
  assumes "shape n n w" and "shape n n w'"
    and "\<forall>i j. i < j \<and> j < n \<longrightarrow> w ! i ! j = w' ! i ! j"
  shows "ising_model n w = ising_model n w' \<and>
         (\<exists>m. ising_model n w = Inr m \<and> linear m = map (\<lambda>i. (i, 0)) [0..<n] \<and> offset m = 0)"
proof -
  have "row_couplings w n i = row_couplings w' n i" for i
    using assms(3) by (simp add: row_couplings_def)
  then have "row_couplings w n = row_couplings w' n"
    by (rule ext)
  then show ?thesis
    by (simp add: ising_model_eq [OF assms(1)] ising_model_eq [OF assms(2)])
qed

theorem couplings_upper_triangle_only_witness:
  "shape 2 2 [[0, 1], [1, 0]] \<and> shape 2 2 [[5, 1], [7, 3]] \<and>
   ising_model 2 [[0, 1], [1, 0]] = ising_model 2 [[5, 1], [7, 3]] \<and>
   (\<exists>m. ising_model 2 [[0, 1], [1, 0]] = Inr m \<and> linear m = map (\<lambda>i. (i, 0)) [0..<2] \<and>
      offset m = 0)"
proof -
  have a: "shape 2 2 [[0, 1], [1, 0]]" and b: "shape 2 2 [[5, 1], [7, 3]]"
    by (simp_all add: shape_def)
  have c: "\<forall>i j. i < j \<and> j < 2 \<longrightarrow> [[0, 1], [1, 0::real]] ! i ! j = [[5, 1], [7, 3]] ! i ! j"
  proof (intro allI impI)
    fix i j :: nat assume "i < j \<and> j < 2"
    then have "i = 0" "j = 1" by auto
    then show "[[0, 1], [1, 0::real]] ! i ! j = [[5, 1], [7, 3]] ! i ! j" by simp
  qed
  show ?thesis using a b couplings_upper_triangle_only [OF a b c] by blast
qed

text \<open>
  On two nodes joined by an edge of weight \<open>1\<close> and put in different clusters, the model
  evaluates to \<open>-1\<close> with offset \<open>0\<close>, while the cut weight is \<open>1\<close>.
\<close>

theorem evaluate_plus_offset_not_cut_weight:
  "ising_model 2 [[0, 1], [1, 0]]
     = Inr \<lparr>linear = [(0, 0), (1, 0)], quadratic = [((0, 1), 1)], offset = 0, vartype = SPIN\<rparr>
   \<and> evaluate \<lparr>linear = [(0, 0), (1, 0)], quadratic = [((0, 1), 1)], offset = 0, vartype = SPIN\<rparr>
        [1, - 1]
       + offset \<lparr>linear = [(0, 0), (1, 0)], quadratic = [((0, 1), 1)], offset = 0, vartype = SPIN\<rparr>
     \<noteq> cut_weight [[0, 1], [1, 0]] 2 [1, - 1]"
  by code_simp

text \<open>
  C1 (amended): for every \<open>N \<times> N\<close> weight matrix and every spin assignment \<open>s\<close>, the model
  is built, and its value on \<open>s\<close> plus its offset equals the total weight
  \<open>sum_{i<j} W[i][j]\<close> minus twice the cut weight \<open>sum_{i<j} W[i][j] * (1 - s_i*s_j) / 2\<close>.
\<close>

theorem evaluate_plus_offset:
  assumes "shape n n w" and "spin_assignment n s"
  shows "\<exists>m. ising_model n w = Inr m \<and>
           evaluate m s + offset m = total_weight w n - 2 * cut_weight w n s"
proof -
  obtain m where m: "ising_model n w = Inr m"
    using ising_model_eq [OF assms(1)] by blast
  have "evaluate m s + offset m = total_weight w n - 2 * cut_weight w n s"
    using evaluate_ising(1) [OF assms(1) m, of s] evaluate_ising(2) [OF assms(1) m]
      energy_total_cut_weight [of n w s] by simp
  with m show ?thesis by blast
qed

theorem evaluate_plus_offset_witness:
  "shape 2 2 [[0, 1], [1, 0]] \<and> spin_assignment 2 [1, - 1] \<and>
   (\<exists>m. ising_model 2 [[0, 1], [1, 0]] = Inr m \<and>
      evaluate m [1, - 1] + offset m
        = total_weight [[0, 1], [1, 0]] 2 - 2 * cut_weight [[0, 1], [1, 0]] 2 [1, - 1])"
proof -
  have a: "shape 2 2 [[0, 1], [1, 0]]" by (simp add: shape_def)
  have b: "spin_assignment 2 [1, - 1]" by (simp add: spin_assignment_def)
  show ?thesis using a b evaluate_plus_offset [OF a b] by blast
qed

text \<open>
  C10: for every \<open>N \<times> N\<close> weight matrix and every spin assignment \<open>s\<close>, the energy
  \<open>E(s) = sum_{i<j} J[i,j] * s_i * s_j\<close> of the model that is built satisfies
  \<open>cut_value(s) = (sum_{i<j} W[i][j] - E(s)) / 2\<close>; so \<open>s\<close> has the least energy among the
  spin assignments exactly when it has the greatest cut value.
\<close>

theorem cut_value_from_energy:
  assumes "shape n n w" and "spin_assignment n s"
  shows "\<exists>m. ising_model n w = Inr m \<and>
           cut_value w n s = (total_weight w n - quadratic_energy (quadratic m) s) / 2 \<and>
           ((\<forall>t. spin_assignment n t \<longrightarrow>
                  quadratic_energy (quadratic m) s \<le> quadratic_energy (quadratic m) t)
            \<longleftrightarrow> (\<forall>t. spin_assignment n t \<longrightarrow> cut_value w n t \<le> cut_value w n s))"
proof -
  obtain m where m: "ising_model n w = Inr m"
    using ising_model_eq [OF assms(1)] by blast
  have q: "quadratic m = concat (map (row_couplings w n) [0..<n])"
    using m ising_model_eq [OF assms(1)] by auto
  have e: "quadratic_energy (quadratic m) t = total_weight w n - 2 * cut_value w n t"
    if "spin_assignment n t" for t
    using that
    by (simp add: q quadratic_energy_rows cut_value_weight
        energy_total_cut_weight [unfolded sum_pairs_def])
  have "cut_value w n s = (total_weight w n - quadratic_energy (quadratic m) s) / 2"
    using e [OF assms(2)] by simp
  moreover have "(\<forall>t. spin_assignment n t \<longrightarrow>
                  quadratic_energy (quadratic m) s \<le> quadratic_energy (quadratic m) t)
            \<longleftrightarrow> (\<forall>t. spin_assignment n t \<longrightarrow> cut_value w n t \<le> cut_value w n s)"
    using e [OF assms(2)] e by auto
  ultimately show ?thesis using m by blast
qed

theorem cut_value_from_energy_witness:
  "shape 2 2 [[0, 1], [1, 0]] \<and> spin_assignment 2 [1, - 1] \<and>
   (\<exists>m. ising_model 2 [[0, 1], [1, 0]] = Inr m \<and>
      cut_value [[0, 1], [1, 0]] 2 [1, - 1]
        = (total_weight [[0, 1], [1, 0]] 2 - quadratic_energy (quadratic m) [1, - 1]) / 2)"
proof -
  have a: "shape 2 2 [[0, 1], [1, 0]]" by (simp add: shape_def)
  have b: "spin_assignment 2 [1, - 1]" by (simp add: spin_assignment_def)
  show ?thesis using a b cut_value_from_energy [OF a b] by blast
qed

text \<open>
  C7: negating every spin of a spin assignment leaves the cut value unchanged.
\<close>

theorem cut_value_flip:
  assumes "spin_assignment n s"
  shows "cut_value w n (flip s) = cut_value w n s"
  unfolding cut_value_def
proof (rule sum_pairs_cong)
  fix i j assume "i < j" "j < n"
  then have "i < length s" "j < length s"
    using assms by (auto simp: spin_assignment_def)
  then show "(if flip s ! i \<noteq> flip s ! j then w ! i ! j else 0)
      = (if s ! i \<noteq> s ! j then w ! i ! j else 0)"
    by (simp add: flip_def)
qed

theorem cut_value_flip_witness:
  "spin_assignment 2 [1, - 1] \<and>
   cut_value [[0, 1], [1, 0]] 2 (flip [1, - 1]) = cut_value [[0, 1], [1, 0]] 2 [1, - 1]"
proof -
  have b: "spin_assignment 2 [1, - 1]" by (simp add: spin_assignment_def)
  show ?thesis using b cut_value_flip [OF b, of "[[0, 1], [1, 0]]"] by simp
qed

end
